theory Spec2Isabelle
  imports Main
begin

section \<open>Strings and numbers of the host language\<close>

text \<open>
  The generator is one TypeScript module, \<^verbatim>\<open>src/index.ts\<close>. Its strings are modelled
  as \<^typ>\<open>string\<close>, one \<^typ>\<open>char\<close> per code unit, restricted to the code units
  0 to 255 (the embedded table is plain ASCII). Its numbers only ever come out of
  \<^verbatim>\<open>parseInt\<close>, so a number is an integer or NaN; the model is exact for values
  below \<open>2 ^ 53\<close>, the claims use values below 256.
\<close>

datatype number = NaN | Number int

definition nl :: char where
  "nl = CHR 0x0A"

text \<open>White space and line terminators, as \<^verbatim>\<open>String.prototype.trim\<close> and
  \<^verbatim>\<open>parseInt\<close> skip them: TAB, LF, VT, FF, CR, SP and NBSP.\<close>

definition is_ws :: "char \<Rightarrow> bool" where
  "is_ws c = (c \<in> {CHR 0x09, CHR 0x0A, CHR 0x0B, CHR 0x0C, CHR 0x0D, CHR 0x20, CHR 0xA0})"

text \<open>\<^verbatim>\<open>s.trim()\<close>\<close>

definition trim :: "string \<Rightarrow> string" where
  "trim s = rev (dropWhile is_ws (rev (dropWhile is_ws s)))"

text \<open>\<^verbatim>\<open>s.split("\n")\<close>: the result is never empty, \<^verbatim>\<open>"".split("\n")\<close> is \<^verbatim>\<open>[""]\<close>
  (so the first branch of the \<open>case\<close> below is never taken).\<close>

fun split_nl :: "string \<Rightarrow> string list" where
  "split_nl [] = [[]]"
| "split_nl (c # cs) =
     (if c = nl then [] # split_nl cs
      else (case split_nl cs of [] \<Rightarrow> [[c]] | l # ls \<Rightarrow> (c # l) # ls))"

text \<open>\<^verbatim>\<open>xs.join(sep)\<close> on an array of strings.\<close>

fun join :: "string \<Rightarrow> string list \<Rightarrow> string" where
  "join sep [] = []"
| "join sep [x] = x"
| "join sep (x # y # ys) = x @ sep @ join sep (y # ys)"

text \<open>\<^verbatim>\<open>s.slice(a, b)\<close> and \<^verbatim>\<open>s.slice(a)\<close> for the non-negative constant indices
  the module uses.\<close>

definition slice :: "string \<Rightarrow> nat \<Rightarrow> nat \<Rightarrow> string" where
  "slice s a b = take (b - a) (drop a s)"

definition slice_from :: "string \<Rightarrow> nat \<Rightarrow> string" where
  "slice_from s a = drop a s"

text \<open>\<^verbatim>\<open>s.includes("2")\<close>: a search string of one character occurs in \<open>s\<close> exactly
  when that character does.\<close>

definition str_includes :: "string \<Rightarrow> char \<Rightarrow> bool" where
  "str_includes s c = (c \<in> set s)"

text \<open>\<^verbatim>\<open>s.toLowerCase()\<close> on the code units 0 to 255: A to Z and the upper-case
  letters of Latin-1 (0xC0 to 0xDE without the multiplication sign 0xD7) move up by 32.\<close>

definition lower_char :: "char \<Rightarrow> char" where
  "lower_char c =
     (let n = (of_char c :: nat)
      in if (65 \<le> n \<and> n \<le> 90) \<or> (192 \<le> n \<and> n \<le> 222 \<and> n \<noteq> 215)
         then char_of (n + 32) else c)"

definition toLowerCase :: "string \<Rightarrow> string" where
  "toLowerCase s = map lower_char s"

text \<open>\<^verbatim>\<open>parseInt(s, radix)\<close> for a radix of at most 10: leading white space is
  skipped, one sign is read, then the longest run of digits below the radix; no digit
  gives NaN.\<close>

definition digit_val :: "nat \<Rightarrow> char \<Rightarrow> nat option" where
  "digit_val radix c =
     (let n = (of_char c :: nat)
      in if 48 \<le> n \<and> n < 48 + radix then Some (n - 48) else None)"

definition is_digit :: "nat \<Rightarrow> char \<Rightarrow> bool" where
  "is_digit radix c = (digit_val radix c \<noteq> None)"

definition digits_value :: "nat \<Rightarrow> string \<Rightarrow> nat" where
  "digits_value radix ds = foldl (\<lambda>acc c. acc * radix + the (digit_val radix c)) 0 ds"

definition parseInt :: "string \<Rightarrow> nat \<Rightarrow> number" where
  "parseInt s radix =
     (let t = dropWhile is_ws s;
          neg = (t \<noteq> [] \<and> hd t = CHR ''-'');
          u = (if t \<noteq> [] \<and> (hd t = CHR ''-'' \<or> hd t = CHR ''+'') then tl t else t);
          ds = takeWhile (is_digit radix) u
      in if ds = [] then NaN
         else Number ((if neg then - 1 else 1) * int (digits_value radix ds)))"

text \<open>\<^verbatim>\<open>n.toString(10)\<close>, also what \<^verbatim>\<open>join\<close> does to a number.\<close>

fun nat_to_string :: "nat \<Rightarrow> string" where
  "nat_to_string n =
     (if n < 10 then [char_of (48 + n)]
      else nat_to_string (n div 10) @ [char_of (48 + n mod 10)])"

declare nat_to_string.simps [simp del]

fun number_to_string :: "number \<Rightarrow> string" where
  "number_to_string NaN = ''NaN''"
| "number_to_string (Number n) =
     (if n < 0 then CHR ''-'' # nat_to_string (nat (- n)) else nat_to_string (nat n))"

text \<open>\<^verbatim>\<open>/i(12|1|2)$/.test(name)\<close>: without the multiline flag \<^verbatim>\<open>$\<close> is the end of
  the string, so the test is whether the name ends in i12, i1 or i2.\<close>

definition ends_with :: "string \<Rightarrow> string \<Rightarrow> bool" where
  "ends_with s t = (length t \<le> length s \<and> drop (length s - length t) s = t)"

definition already_immediate :: "string \<Rightarrow> bool" where
  "already_immediate name =
     (ends_with name ''i12'' \<or> ends_with name ''i1'' \<or> ends_with name ''i2'')"

section \<open>The instruction table\<close>

record Instruction =
  opcodeBits :: string
  nameStartIndex :: number
  nameEndIndex :: number
  name :: string

datatype ImmediateMode = ARG1_IMMEDIATE | ARG2_IMMEDIATE | BOTH_ARGS_IMMEDIATE

text \<open>The string each mode is in the source (\<^verbatim>\<open>"i1"\<close>, \<^verbatim>\<open>"i2"\<close>, \<^verbatim>\<open>"i12"\<close>).\<close>

fun mode_string :: "ImmediateMode \<Rightarrow> string" where
  "mode_string ARG1_IMMEDIATE = ''i1''"
| "mode_string ARG2_IMMEDIATE = ''i2''"
| "mode_string BOTH_ARGS_IMMEDIATE = ''i12''"

definition modes :: "ImmediateMode list" where
  "modes = [ARG1_IMMEDIATE, ARG2_IMMEDIATE, BOTH_ARGS_IMMEDIATE]"

fun modeToBits :: "ImmediateMode \<Rightarrow> string list" where
  "modeToBits ARG1_IMMEDIATE = [''1'', ''0'']"
| "modeToBits ARG2_IMMEDIATE = [''0'', ''1'']"
| "modeToBits BOTH_ARGS_IMMEDIATE = [''1'', ''1'']"

text \<open>\<^verbatim>\<open>xs[i] = v\<close> on an array: in range it overwrites, past the end the array
  grows, and the holes left in between read as the empty string in \<^verbatim>\<open>join\<close>.\<close>

definition array_set :: "string list \<Rightarrow> nat \<Rightarrow> string \<Rightarrow> string list" where
  "array_set xs i v =
     (if i < length xs then xs[i := v]
      else xs @ replicate (i - length xs) [] @ [v])"

text \<open>\<^verbatim>\<open>s.split("")\<close>: one string per code unit.\<close>

definition split_chars :: "string \<Rightarrow> string list" where
  "split_chars s = map (\<lambda>c. [c]) s"

definition immediateModeClone :: "Instruction \<Rightarrow> ImmediateMode \<Rightarrow> Instruction" where
  "immediateModeClone i mode =
     (let bits = split_chars (opcodeBits i);
          modeBits = modeToBits mode;
          bits = array_set bits 0 (modeBits ! 0);
          bits = array_set bits 1 (modeBits ! 1)
      in i\<lparr>opcodeBits := join [] bits, name := name i @ mode_string mode\<rparr>)"

definition deserializeInstructionFromRules :: "string \<Rightarrow> Instruction" where
  "deserializeInstructionFromRules line =
     \<lparr>opcodeBits = slice line 0 8,
      nameStartIndex = parseInt (slice line 8 9) 10,
      nameEndIndex = parseInt (slice line 9 10) 10,
      name = slice_from line 10\<rparr>"

definition serializeInstructionToRules :: "Instruction \<Rightarrow> string" where
  "serializeInstructionToRules i =
     join [] [opcodeBits i, number_to_string (nameStartIndex i),
              number_to_string (nameEndIndex i), name i]"

datatype error = Error string

definition serializeInstructionToAsm :: "Instruction \<Rightarrow> error + string" where
  "serializeInstructionToAsm i =
     (if str_includes (opcodeBits i) CHR ''2''
      then Inl (Error (''cannot turn opcode with wildcard to asm: '' @ opcodeBits i))
      else let v = parseInt (opcodeBits i) 2
           in Inr (name i @ '' '' @ number_to_string v))"

text \<open>The first three steps of \<^verbatim>\<open>readFileInstructions\<close>: split at line breaks, trim
  every line, keep the lines that are not empty.\<close>

definition table_lines :: "string \<Rightarrow> string list" where
  "table_lines input = filter (\<lambda>l. l \<noteq> []) (map trim (split_nl input))"

definition readFileInstructions :: "string \<Rightarrow> Instruction list" where
  "readFileInstructions input = rev (map deserializeInstructionFromRules (table_lines input))"

definition stringifyFileInstructionsForFile :: "Instruction list \<Rightarrow> string" where
  "stringifyFileInstructionsForFile instr = join [nl] (map serializeInstructionToRules instr)"

definition getInstructionImmediateModes :: "Instruction \<Rightarrow> ImmediateMode list" where
  "getInstructionImmediateModes i =
     (if name i = ''read'' \<or> name i = ''pop'' then []
      else if name i = ''not'' \<or> name i = ''write'' \<or> name i = ''push''
           then [ARG1_IMMEDIATE]
      else modes)"

definition addImmediateModeClones :: "Instruction \<Rightarrow> Instruction list" where
  "addImmediateModeClones i =
     (if str_includes (opcodeBits i) CHR ''2'' then [i]
      else let modesToAdd = filter (\<lambda>a. length (mode_string a) > 0)
                                   (getInstructionImmediateModes i)
           in i # map (\<lambda>mode. immediateModeClone i mode) modesToAdd)"

section \<open>The generator's run\<close>

text \<open>The embedded table, a template literal that starts and ends with a line break:
  the text is its rows joined by line breaks, after an empty first and before an empty
  last line.\<close>

definition instruction_rows :: "string list" where
  "instruction_rows =
    [''2212222222COND'',
     ''2122222211I_ARG2'',
     ''2001222233MEM'',
     ''1222222200I_ARG1'',
     ''1110010137jgteqi12'',
     ''1110010037jgti12'',
     ''1110001137jlteqi12'',
     ''1110001037jlti12'',
     ''1110000137jneqi12'',
     ''1110000037jeqi12'',
     ''1100011157shli12'',
     ''1100011057shri12'',
     ''1100010157xori12'',
     ''1100001157ori12'',
     ''1100001057andi12'',
     ''1100000157subi12'',
     ''1100000057addi12'',
     ''1010010137jgteqi1'',
     ''1010010037jgti1'',
     ''1010001137jlteqi1'',
     ''1010001037jlti1'',
     ''1010000137jneqi1'',
     ''1010000037jeqi1'',
     ''1001000147writei1'',
     ''1001000047readi1'',
     ''1000011157shli1'',
     ''1000011057shri1'',
     ''1000010157xori1'',
     ''1000010057noti1'',
     ''1000001157ori1'',
     ''1000001057andi1'',
     ''1000000157subi1'',
     ''1000000057addi1'',
     ''0110010137jgteqi2'',
     ''0110010037jgti2'',
     ''0110001137jlteqi2'',
     ''0110001037jlti2'',
     ''0110000137jneqi2'',
     ''0110000037jeqi2'',
     ''0100011157shli2'',
     ''0100011057shri2'',
     ''0100010157xori2'',
     ''0100001157ori2'',
     ''0100001057andi2'',
     ''0100000157subi2'',
     ''0100000057addi2'',
     ''0010010137jgteq'',
     ''0010010037jgt'',
     ''0010001137jlteq'',
     ''0010001037jlt'',
     ''0010000137jneq'',
     ''0010000037jeq'',
     ''0001001147push'',
     ''0001001047pop'',
     ''0001000147write'',
     ''0001000047read'',
     ''0000011157shl'',
     ''0000011057shr'',
     ''0000010157xor'',
     ''0000010057not'',
     ''0000001157or'',
     ''0000001057and'',
     ''0000000157sub'',
     ''0000000057add'']"

definition instructions :: string where
  "instructions = join [nl] ([[]] @ instruction_rows @ [[]])"

text \<open>The module computes \<^verbatim>\<open>instr\<close>, \<^verbatim>\<open>instructionRulesContent\<close> and
  \<^verbatim>\<open>asmContent\<close> once, from \<^verbatim>\<open>instructions\<close>. Each is modelled as a function of
  the table text, and the module's constant is that function at \<open>instructions\<close>.\<close>

definition lowercase_name :: "Instruction \<Rightarrow> Instruction" where
  "lowercase_name i =
     i\<lparr>name := (if str_includes (opcodeBits i) CHR ''2'' then name i
                  else toLowerCase (name i))\<rparr>"

text \<open>The records that reach \<^verbatim>\<open>flatMap(addImmediateModeClones)\<close>: the parsed rows after
  the filter of already expanded mnemonics and after the lower-casing.\<close>

definition base_records :: "string \<Rightarrow> Instruction list" where
  "base_records input =
     map lowercase_name
       (filter (\<lambda>i. \<not> already_immediate (name i)) (readFileInstructions input))"

definition instr_of :: "string \<Rightarrow> Instruction list" where
  "instr_of input = concat (map addImmediateModeClones (base_records input))"

definition instr :: "Instruction list" where
  "instr = instr_of instructions"

definition instructionRulesContent_of :: "string \<Rightarrow> string" where
  "instructionRulesContent_of input = stringifyFileInstructionsForFile (instr_of input)"

definition instructionRulesContent :: string where
  "instructionRulesContent = instructionRulesContent_of instructions"

text \<open>\<^verbatim>\<open>xs.map(f)\<close> for an \<open>f\<close> that may throw: the first error aborts the map.\<close>

fun map_throwing :: "('a \<Rightarrow> error + 'b) \<Rightarrow> 'a list \<Rightarrow> error + 'b list" where
  "map_throwing f [] = Inr []"
| "map_throwing f (x # xs) =
     (case f x of
        Inl e \<Rightarrow> Inl e
      | Inr y \<Rightarrow> (case map_throwing f xs of Inl e \<Rightarrow> Inl e | Inr ys \<Rightarrow> Inr (y # ys)))"

definition asm_records :: "Instruction list \<Rightarrow> Instruction list" where
  "asm_records rs = filter (\<lambda>i. \<not> str_includes (opcodeBits i) CHR ''2'') rs"

definition asm_constants :: string where
  "asm_constants =
     join [nl] ['''', ''R0 0'', ''R1 1'', ''R2 2'', ''R3 3'', ''R4 4'', ''R5 5'',
                ''COUNTER 6'', ''INPUT 7'', ''OUTPUT 7'', ''_ 0'', '''']"

definition asmContent_of :: "string \<Rightarrow> error + string" where
  "asmContent_of input =
     (case map_throwing serializeInstructionToAsm (asm_records (instr_of input)) of
        Inl e \<Rightarrow> Inl e
      | Inr ls \<Rightarrow> Inr (join [nl] ls @ asm_constants))"

definition asmContent :: "error + string" where
  "asmContent = asmContent_of instructions"

section \<open>Sample records and the row format\<close>

text \<open>The two records of the specification's examples.\<close>

definition add_record :: Instruction where
  "add_record = \<lparr>opcodeBits = ''00000000'', nameStartIndex = Number 0,
                 nameEndIndex = Number 7, name = ''add''\<rparr>"

definition not_record :: Instruction where
  "not_record = \<lparr>opcodeBits = ''00000100'', nameStartIndex = Number 5,
                 nameEndIndex = Number 7, name = ''not''\<rparr>"

definition jgteqi12_record :: Instruction where
  "jgteqi12_record = \<lparr>opcodeBits = ''11100101'', nameStartIndex = Number 3,
                      nameEndIndex = Number 7, name = ''jgteqi12''\<rparr>"

text \<open>
  The row format of the specification, for the statements about well-formed rows: eight
  opcode characters out of 0, 1 and 2, one digit for the start and one for the end of
  the name field, then the mnemonic; a row holds no line break and, being a trimmed
  line, does not end in white space.
\<close>

definition well_formed_row :: "string \<Rightarrow> bool" where
  "well_formed_row l =
     (10 \<le> length l \<and> set (take 8 l) \<subseteq> {CHR ''0'', CHR ''1'', CHR ''2''}
      \<and> is_digit 10 (l ! 8) \<and> is_digit 10 (l ! 9)
      \<and> nl \<notin> set l \<and> \<not> is_ws (last l))"

text \<open>A table whose first row is a base instruction named \<open>muli1\<close>.\<close>

definition muli1_table :: string where
  "muli1_table = join [nl] [''0000100057muli1'', ''0000000057add'']"

text \<open>The same format on records: what \<open>deserializeInstructionFromRules\<close> makes of a
  well-formed row.\<close>

definition is_digit_number :: "number \<Rightarrow> bool" where
  "is_digit_number x = (case x of NaN \<Rightarrow> False | Number n \<Rightarrow> 0 \<le> n \<and> n < 10)"

definition well_formed_record :: "Instruction \<Rightarrow> bool" where
  "well_formed_record r =
     (length (opcodeBits r) = 8 \<and> set (opcodeBits r) \<subseteq> {CHR ''0'', CHR ''1'', CHR ''2''}
      \<and> is_digit_number (nameStartIndex r) \<and> is_digit_number (nameEndIndex r)
      \<and> nl \<notin> set (name r) \<and> (name r = [] \<or> \<not> is_ws (last (name r))))"

text \<open>A table with a wildcard row, one with a wildcard row whose mnemonic ends in i1,
  and one whose only mnemonic ends in I1 with a capital I.\<close>

definition cond_table :: string where
  "cond_table = join [nl] [''2212222222COND'', ''0000000057ADD'']"

definition mask_table :: string where
  "mask_table = join [nl] [''2222222200MASKi1'', ''0000000057add'']"

definition capital_tag_table :: string where
  "capital_tag_table = ''0000000057ADDI1''"

section \<open>The immediate-mode expander\<close>

lemma join_empty_sep: "join [] xs = concat xs"
  by (induction "[] :: string" xs rule: join.induct) simp_all

lemma immediateModeClone_opcodeBits:
  "opcodeBits (immediateModeClone i mode) = concat (modeToBits mode) @ drop 2 (opcodeBits i)"
proof (cases "opcodeBits i")
  case Nil
  then show ?thesis
    by (cases mode)
       (simp_all add: immediateModeClone_def split_chars_def array_set_def join_empty_sep)
next
  case (Cons a as)
  then show ?thesis
    by (cases as; cases mode)
       (simp_all add: immediateModeClone_def split_chars_def array_set_def join_empty_sep)
qed

lemma immediateModeClone_other:
  "name (immediateModeClone i mode) = name i @ mode_string mode"
  "nameStartIndex (immediateModeClone i mode) = nameStartIndex i"
  "nameEndIndex (immediateModeClone i mode) = nameEndIndex i"
  by (simp_all add: immediateModeClone_def Let_def)

lemma addImmediateModeClones_plain:
  "\<not> str_includes (opcodeBits i) CHR ''2'' \<Longrightarrow>
   addImmediateModeClones i = i # map (immediateModeClone i) (getInstructionImmediateModes i)"
proof -
  have "filter (\<lambda>a. length (mode_string a) > 0) ms = ms" for ms
    by (induction ms) (auto elim: mode_string.elims)
  then show "\<not> str_includes (opcodeBits i) CHR ''2'' \<Longrightarrow> ?thesis"
    by (simp add: addImmediateModeClones_def)
qed

lemma addImmediateModeClones_wildcard:
  "str_includes (opcodeBits i) CHR ''2'' \<Longrightarrow> addImmediateModeClones i = [i]"
  by (simp add: addImmediateModeClones_def)

text \<open>
  Claim C2. For a record without wildcard and a mode its policy allows, the record
  \<open>immediateModeClone\<close> derives is one of the records the expander emits; its opcode bits
  from position 2 on are the base record's, its bits 0 and 1 are the pattern of the mode
  (10 for the first argument, 01 for the second, 11 for both), its mnemonic is the base
  mnemonic followed by the tag of the mode, and both name indices are unchanged.
\<close>

theorem derived_record_fields:
  assumes "\<not> str_includes (opcodeBits i) CHR ''2''"
    and "mode \<in> set (getInstructionImmediateModes i)"
  shows "immediateModeClone i mode \<in> set (addImmediateModeClones i)
    \<and> drop 2 (opcodeBits (immediateModeClone i mode)) = drop 2 (opcodeBits i)
    \<and> take 2 (opcodeBits (immediateModeClone i mode)) =
        (case mode of ARG1_IMMEDIATE \<Rightarrow> ''10'' | ARG2_IMMEDIATE \<Rightarrow> ''01''
         | BOTH_ARGS_IMMEDIATE \<Rightarrow> ''11'')
    \<and> name (immediateModeClone i mode) =
        name i @ (case mode of ARG1_IMMEDIATE \<Rightarrow> ''i1'' | ARG2_IMMEDIATE \<Rightarrow> ''i2''
                  | BOTH_ARGS_IMMEDIATE \<Rightarrow> ''i12'')
    \<and> nameStartIndex (immediateModeClone i mode) = nameStartIndex i
    \<and> nameEndIndex (immediateModeClone i mode) = nameEndIndex i"
proof -
  from assms have "immediateModeClone i mode \<in> set (addImmediateModeClones i)"
    by (simp add: addImmediateModeClones_plain)
  moreover have "drop 2 (opcodeBits (immediateModeClone i mode)) = drop 2 (opcodeBits i)"
    by (cases mode) (simp_all add: immediateModeClone_opcodeBits)
  moreover have "take 2 (opcodeBits (immediateModeClone i mode)) =
        (case mode of ARG1_IMMEDIATE \<Rightarrow> ''10'' | ARG2_IMMEDIATE \<Rightarrow> ''01''
         | BOTH_ARGS_IMMEDIATE \<Rightarrow> ''11'')"
    by (cases mode) (simp_all add: immediateModeClone_opcodeBits)
  moreover have "name (immediateModeClone i mode) =
        name i @ (case mode of ARG1_IMMEDIATE \<Rightarrow> ''i1'' | ARG2_IMMEDIATE \<Rightarrow> ''i2''
                  | BOTH_ARGS_IMMEDIATE \<Rightarrow> ''i12'')"
    by (cases mode) (simp_all add: immediateModeClone_other)
  ultimately show ?thesis by (simp add: immediateModeClone_other)
qed

theorem derived_record_fields_witness:
  "\<not> str_includes (opcodeBits add_record) CHR ''2''
   \<and> ARG2_IMMEDIATE \<in> set (getInstructionImmediateModes add_record)
   \<and> immediateModeClone add_record ARG2_IMMEDIATE \<in> set (addImmediateModeClones add_record)
   \<and> opcodeBits (immediateModeClone add_record ARG2_IMMEDIATE) = ''01000000''
   \<and> name (immediateModeClone add_record ARG2_IMMEDIATE) = ''addi2''"
proof -
  have h1: "\<not> str_includes (opcodeBits add_record) CHR ''2''"
    by (simp add: add_record_def str_includes_def)
  have h2: "ARG2_IMMEDIATE \<in> set (getInstructionImmediateModes add_record)"
    by (simp add: add_record_def getInstructionImmediateModes_def modes_def)
  have "opcodeBits (immediateModeClone add_record ARG2_IMMEDIATE) = ''01000000''"
    by (simp add: immediateModeClone_opcodeBits add_record_def)
  with h1 h2 derived_record_fields [OF h1 h2] show ?thesis
    by (simp add: add_record_def)
qed

text \<open>
  Claim C3. The policy by mnemonic, on records without wildcard: \<open>read\<close> and \<open>pop\<close>
  get no variant, \<open>not\<close>, \<open>write\<close> and \<open>push\<close> get the first-argument variant only,
  every other mnemonic gets all three; a record named \<open>not\<close> expands to the two records
  \<open>not\<close> and \<open>noti1\<close>.
\<close>

theorem immediate_mode_policy:
  assumes "\<not> str_includes (opcodeBits i) CHR ''2''"
  shows "(name i \<in> {''read'', ''pop''} \<longrightarrow> addImmediateModeClones i = [i])
    \<and> (name i \<in> {''not'', ''write'', ''push''} \<longrightarrow>
         addImmediateModeClones i = [i, immediateModeClone i ARG1_IMMEDIATE])
    \<and> (name i \<notin> {''read'', ''pop'', ''not'', ''write'', ''push''} \<longrightarrow>
         addImmediateModeClones i =
           [i, immediateModeClone i ARG1_IMMEDIATE, immediateModeClone i ARG2_IMMEDIATE,
            immediateModeClone i BOTH_ARGS_IMMEDIATE])
    \<and> (name i = ''not'' \<longrightarrow> map name (addImmediateModeClones i) = [''not'', ''noti1''])"
  using assms
  by (auto simp add: addImmediateModeClones_plain getInstructionImmediateModes_def modes_def
        immediateModeClone_other)

theorem immediate_mode_policy_witness:
  "\<not> str_includes (opcodeBits not_record) CHR ''2''
   \<and> addImmediateModeClones not_record =
       [not_record, \<lparr>opcodeBits = ''10000100'', nameStartIndex = Number 5,
                     nameEndIndex = Number 7, name = ''noti1''\<rparr>]"
proof -
  have h: "\<not> str_includes (opcodeBits not_record) CHR ''2''"
    by (simp add: not_record_def str_includes_def)
  have n: "name not_record = ''not''" by (simp add: not_record_def)
  have c: "immediateModeClone not_record ARG1_IMMEDIATE =
      \<lparr>opcodeBits = ''10000100'', nameStartIndex = Number 5,
       nameEndIndex = Number 7, name = ''noti1''\<rparr>"
    by (simp add: immediateModeClone_def not_record_def split_chars_def array_set_def)
  from immediate_mode_policy [OF h] n
  have "addImmediateModeClones not_record =
      [not_record, immediateModeClone not_record ARG1_IMMEDIATE]"
    by simp
  with h c show ?thesis by simp
qed

section \<open>The assembly rendering\<close>

lemma map_throwing_total:
  "\<forall>x\<in>set xs. \<not> isl (f x) \<Longrightarrow> map_throwing f xs = Inr (map (\<lambda>x. projr (f x)) xs)"
proof (induction xs)
  case Nil
  show ?case by simp
next
  case (Cons a xs)
  then obtain y where y: "f a = Inr y" by (cases "f a") simp_all
  from Cons have "map_throwing f xs = Inr (map (\<lambda>x. projr (f x)) xs)" by simp
  with y show ?case by simp
qed

text \<open>
  Claim C7. \<open>serializeInstructionToAsm\<close> throws exactly when the opcode bits contain the
  wildcard 2; and the assembly text is computed without that error for every table text,
  the embedded one included, because only records without wildcard reach the serializer.
\<close>

theorem wildcard_error_exactly_and_unreachable:
  "isl (serializeInstructionToAsm i) = str_includes (opcodeBits i) CHR ''2''
   \<and> \<not> isl (asmContent_of input) \<and> \<not> isl asmContent"
proof -
  have a: "isl (serializeInstructionToAsm i) = str_includes (opcodeBits i) CHR ''2''" for i
    by (simp add: serializeInstructionToAsm_def Let_def)
  have "\<forall>x\<in>set (asm_records rs). \<not> isl (serializeInstructionToAsm x)" for rs
    by (simp add: a asm_records_def)
  then have b: "\<not> isl (asmContent_of inp)" for inp
    by (simp add: asmContent_of_def map_throwing_total)
  show ?thesis using a b by (simp add: asmContent_def)
qed

lemma digits_value_snoc:
  "digits_value r (ds @ [d]) = digits_value r ds * r + the (digit_val r d)"
  by (simp add: digits_value_def)

lemma digit_val_bit:
  "c \<in> {CHR ''0'', CHR ''1''} \<Longrightarrow> digit_val 2 c = Some (if c = CHR ''1'' then 1 else 0)"
  by (auto simp add: digit_val_def)

lemma digits_value_bits:
  "set bs \<subseteq> {CHR ''0'', CHR ''1''} \<Longrightarrow>
   digits_value 2 bs =
     (\<Sum>k<length bs. if bs ! k = CHR ''1'' then 2 ^ (length bs - 1 - k) else 0)"
proof (induction bs rule: rev_induct)
  case Nil
  show ?case by (simp add: digits_value_def)
next
  case (snoc d bs)
  then have ih: "digits_value 2 bs =
      (\<Sum>k<length bs. if bs ! k = CHR ''1'' then 2 ^ (length bs - 1 - k) else 0)"
    and d: "d \<in> {CHR ''0'', CHR ''1''}" by simp_all
  have "(\<Sum>k<length bs. if (bs @ [d]) ! k = CHR ''1'' then 2 ^ (length (bs @ [d]) - 1 - k) else 0)
      = (\<Sum>k<length bs. 2 * (if bs ! k = CHR ''1'' then 2 ^ (length bs - 1 - k) else (0::nat)))"
  proof (rule sum.cong)
    fix k assume "k \<in> {..<length bs}"
    then have k: "k < length bs" by simp
    then have "length bs - k = Suc (length bs - 1 - k)" by simp
    with k show "(if (bs @ [d]) ! k = CHR ''1'' then 2 ^ (length (bs @ [d]) - 1 - k) else 0)
        = 2 * (if bs ! k = CHR ''1'' then 2 ^ (length bs - 1 - k) else (0::nat))"
      by (simp add: nth_append)
  qed simp
  also have "\<dots> = 2 * digits_value 2 bs"
    by (simp only: ih sum_distrib_left)
  finally have s: "(\<Sum>k<length bs. if (bs @ [d]) ! k = CHR ''1''
        then 2 ^ (length (bs @ [d]) - 1 - k) else 0) = 2 * digits_value 2 bs" .
  have "(\<Sum>k<length (bs @ [d]). if (bs @ [d]) ! k = CHR ''1''
        then 2 ^ (length (bs @ [d]) - 1 - k) else 0)
      = 2 * digits_value 2 bs + (if d = CHR ''1'' then 1 else 0)"
    using s by simp
  then show ?case
    by (simp only: digits_value_snoc digit_val_bit [OF d]) simp
qed

lemma parseInt_bits:
  assumes "bs \<noteq> []" and "set bs \<subseteq> {CHR ''0'', CHR ''1''}"
  shows "parseInt bs 2 = Number (int (digits_value 2 bs))"
proof -
  have dig: "\<forall>c\<in>set bs. is_digit 2 c"
    using assms(2) by (auto simp add: is_digit_def digit_val_def)
  then have tw: "takeWhile (is_digit 2) bs = bs" by (simp add: takeWhile_eq_all_conv)
  from assms obtain b bs' where bs: "bs = b # bs'" and b: "b \<in> {CHR ''0'', CHR ''1''}"
    by (cases bs) auto
  from b have "\<not> is_ws b" "b \<noteq> CHR ''-''" "b \<noteq> CHR ''+''" by (auto simp add: is_ws_def)
  then have "dropWhile is_ws bs = bs" "hd bs \<noteq> CHR ''-''" "hd bs \<noteq> CHR ''+''"
    by (simp_all add: bs)
  then show ?thesis by (simp add: parseInt_def Let_def tw assms(1))
qed

lemma number_to_string_nat: "number_to_string (Number (int n)) = nat_to_string n"
  by simp

text \<open>
  Claim C8. For a record whose eight opcode characters are 0 or 1, the assembly line is
  the mnemonic, a space, and the decimal numeral of the opcode read in base 2 (character
  \<open>k\<close> weighs \<open>2 ^ (7 - k)\<close>); the table of the single row \<open>0000000007add\<close>
  gives the lines \<open>add 0\<close>, \<open>addi1 128\<close>, \<open>addi2 64\<close>, \<open>addi12 192\<close>, followed by
  the block of constants.
\<close>

theorem asm_line_is_decimal_opcode:
  assumes "length (opcodeBits i) = 8"
    and "set (opcodeBits i) \<subseteq> {CHR ''0'', CHR ''1'', CHR ''2''}"
    and "\<not> str_includes (opcodeBits i) CHR ''2''"
  shows "serializeInstructionToAsm i =
      Inr (name i @ '' '' @
           nat_to_string (\<Sum>k<8. if opcodeBits i ! k = CHR ''1'' then 2 ^ (7 - k) else 0))
    \<and> asmContent_of ''0000000007add'' =
      Inr (join [nl] [''add 0'', ''addi1 128'', ''addi2 64'', ''addi12 192''] @ asm_constants)"
proof -
  define n :: nat where
    "n = (\<Sum>k<8. if opcodeBits i ! k = CHR ''1'' then 2 ^ (7 - k) else 0)"
  from assms have bits: "set (opcodeBits i) \<subseteq> {CHR ''0'', CHR ''1''}"
    by (auto simp add: str_includes_def)
  from assms(1) have ne: "opcodeBits i \<noteq> []" by auto
  have "digits_value 2 (opcodeBits i) = n"
    by (simp add: digits_value_bits [OF bits] assms(1) n_def cong: if_cong)
  then have "parseInt (opcodeBits i) 2 = Number (int n)"
    by (simp only: parseInt_bits [OF ne bits])
  then have "serializeInstructionToAsm i = Inr (name i @ '' '' @ nat_to_string n)"
    using assms(3) by (simp add: serializeInstructionToAsm_def number_to_string_nat)
  then have "serializeInstructionToAsm i =
      Inr (name i @ '' '' @
           nat_to_string (\<Sum>k<8. if opcodeBits i ! k = CHR ''1'' then 2 ^ (7 - k) else 0))"
    by (simp only: n_def)
  moreover have "asmContent_of ''0000000007add'' =
      Inr (join [nl] [''add 0'', ''addi1 128'', ''addi2 64'', ''addi12 192''] @ asm_constants)"
    by code_simp
  ultimately show ?thesis by simp
qed

theorem asm_line_is_decimal_opcode_witness:
  "length (opcodeBits jgteqi12_record) = 8
   \<and> set (opcodeBits jgteqi12_record) \<subseteq> {CHR ''0'', CHR ''1'', CHR ''2''}
   \<and> \<not> str_includes (opcodeBits jgteqi12_record) CHR ''2''
   \<and> serializeInstructionToAsm jgteqi12_record = Inr ''jgteqi12 229''"
proof -
  have h1: "length (opcodeBits jgteqi12_record) = 8"
    and h2: "set (opcodeBits jgteqi12_record) \<subseteq> {CHR ''0'', CHR ''1'', CHR ''2''}"
    and h3: "\<not> str_includes (opcodeBits jgteqi12_record) CHR ''2''"
    by (simp_all add: jgteqi12_record_def str_includes_def)
  have v: "nat_to_string
      (\<Sum>k<8. if opcodeBits jgteqi12_record ! k = CHR ''1'' then 2 ^ (7 - k) else 0) = ''229''"
    by code_simp
  have n: "name jgteqi12_record = ''jgteqi12''" by (simp add: jgteqi12_record_def)
  from asm_line_is_decimal_opcode [OF h1 h2 h3]
  have "serializeInstructionToAsm jgteqi12_record = Inr ''jgteqi12 229''"
    by (simp only: v n) simp
  with h1 h2 h3 show ?thesis by simp
qed

section \<open>The embedded table\<close>

text \<open>
  Claim C1. In the record sequence the module computes from its embedded table, the
  records without wildcard have pairwise different opcode bits.
\<close>

theorem expanded_opcodes_distinct:
  "distinct (map opcodeBits (filter (\<lambda>i. \<not> str_includes (opcodeBits i) CHR ''2'') instr))"
  by code_simp

section \<open>The table parser and the rule rows\<close>

lemma split_nl_no_nl: "nl \<notin> set l \<Longrightarrow> split_nl l = [l]"
  by (induction l) auto

lemma split_nl_line: "nl \<notin> set l \<Longrightarrow> split_nl (l @ nl # rest) = l # split_nl rest"
  by (induction l) auto

lemma split_nl_join:
  "ls \<noteq> [] \<Longrightarrow> \<forall>l\<in>set ls. nl \<notin> set l \<Longrightarrow> split_nl (join [nl] ls) = ls"
proof (induction "[nl]" ls rule: join.induct)
  case 1
  then show ?case by simp
next
  case (2 x)
  then show ?case by (simp add: split_nl_no_nl)
next
  case (3 x y ys)
  then show ?case by (simp add: split_nl_line)
qed

lemma trim_id: "l \<noteq> [] \<Longrightarrow> \<not> is_ws (hd l) \<Longrightarrow> \<not> is_ws (last l) \<Longrightarrow> trim l = l"
proof -
  assume a: "l \<noteq> []" "\<not> is_ws (hd l)" "\<not> is_ws (last l)"
  then have "dropWhile is_ws l = l" by (cases l) simp_all
  moreover from a have "dropWhile is_ws (rev l) = rev l"
    by (cases "rev l") (simp_all add: last_rev [symmetric] hd_rev)
  ultimately show ?thesis by (simp add: trim_def)
qed

lemma bit_not_ws: "c \<in> {CHR ''0'', CHR ''1'', CHR ''2''} \<Longrightarrow> \<not> is_ws c"
  by (auto simp add: is_ws_def)

lemma well_formed_row_trim:
  assumes "well_formed_row l"
  shows "trim l = l" and "l \<noteq> []" and "nl \<notin> set l"
proof -
  from assms have len: "10 \<le> length l" by (simp add: well_formed_row_def)
  then show ne: "l \<noteq> []" by auto
  from assms show "nl \<notin> set l" by (simp add: well_formed_row_def)
  from len ne have "hd l \<in> set (take 8 l)" by (cases l) simp_all
  with assms have "\<not> is_ws (hd l)"
    using bit_not_ws by (auto simp add: well_formed_row_def)
  with assms ne show "trim l = l" by (simp add: trim_id well_formed_row_def)
qed

lemma table_lines_join:
  assumes "\<forall>l\<in>set ls. well_formed_row l"
  shows "table_lines (join [nl] ls) = ls"
proof (cases "ls = []")
  case True
  then show ?thesis by (simp add: table_lines_def trim_def)
next
  case False
  with assms have "split_nl (join [nl] ls) = ls"
    by (simp add: split_nl_join well_formed_row_trim)
  moreover from assms have "map trim ls = ls"
    by (simp add: map_idI well_formed_row_trim)
  moreover from assms have "filter (\<lambda>l. l \<noteq> []) ls = ls"
    by (simp add: well_formed_row_trim)
  ultimately show ?thesis by (simp add: table_lines_def)
qed

lemma digit_val_10: "digit_val 10 c = Some d \<Longrightarrow> d < 10 \<and> c = char_of (48 + d)"
  by (auto simp add: digit_val_def Let_def split: if_splits)

lemma nat_to_string_digit: "d < 10 \<Longrightarrow> nat_to_string d = [char_of (48 + d)]"
  by (simp add: nat_to_string.simps)

lemma parseInt_digit:
  assumes "is_digit 10 c"
  shows "\<exists>d<10. parseInt [c] 10 = Number (int d) \<and> nat_to_string d = [c]"
proof -
  from assms obtain d where d: "digit_val 10 c = Some d" by (auto simp add: is_digit_def)
  then have d10: "d < 10" and c: "c = char_of (48 + d)" using digit_val_10 by blast+
  from d have "48 \<le> (of_char c :: nat)" "(of_char c :: nat) < 58"
    by (auto simp add: digit_val_def Let_def split: if_splits)
  then have "\<not> is_ws c" "c \<noteq> CHR ''-''" "c \<noteq> CHR ''+''"
    by (auto simp add: is_ws_def)
  with assms d have "parseInt [c] 10 = Number (int d)"
    by (simp add: parseInt_def Let_def digits_value_def)
  with d10 c show ?thesis by (auto simp add: nat_to_string_digit)
qed

lemma serialize_deserialize_row:
  assumes "well_formed_row l"
  shows "serializeInstructionToRules (deserializeInstructionFromRules l) = l"
proof -
  from assms have len: "10 \<le> length l" and d8: "is_digit 10 (l ! 8)" and d9: "is_digit 10 (l ! 9)"
    by (simp_all add: well_formed_row_def)
  from len have d8': "drop 8 l = l ! 8 # drop 9 l"
    using Cons_nth_drop_Suc [of 8 l] by simp
  from len have d9': "drop 9 l = l ! 9 # drop 10 l"
    using Cons_nth_drop_Suc [of 9 l] by simp
  have s8: "slice l 8 9 = [l ! 8]" and s9: "slice l 9 10 = [l ! 9]"
    by (simp_all add: slice_def d8' d9')
  have s0: "slice l 0 8 = take 8 l" by (simp add: slice_def)
  from parseInt_digit [OF d8] obtain a where
    a: "parseInt [l ! 8] 10 = Number (int a)" "nat_to_string a = [l ! 8]" by blast
  from parseInt_digit [OF d9] obtain b where
    b: "parseInt [l ! 9] 10 = Number (int b)" "nat_to_string b = [l ! 9]" by blast
  have "serializeInstructionToRules (deserializeInstructionFromRules l)
      = take 8 l @ l ! 8 # l ! 9 # drop 10 l"
    by (simp add: serializeInstructionToRules_def deserializeInstructionFromRules_def
        s0 s8 s9 a b slice_from_def)
  also have "\<dots> = take 8 l @ drop 8 l" by (simp only: d8' d9')
  also have "\<dots> = l" by simp
  finally show ?thesis .
qed


lemma stringify_read_join:
  assumes "\<forall>l\<in>set ls. well_formed_row l"
  shows "stringifyFileInstructionsForFile (readFileInstructions (join [nl] ls)) = join [nl] (rev ls)"
proof -
  from assms have "map (\<lambda>l. serializeInstructionToRules (deserializeInstructionFromRules l)) ls = ls"
    by (simp add: map_idI serialize_deserialize_row)
  then have "map serializeInstructionToRules (rev (map deserializeInstructionFromRules ls)) = rev ls"
    by (simp add: rev_map [symmetric] comp_def)
  then show ?thesis
    by (simp add: stringifyFileInstructionsForFile_def readFileInstructions_def
        table_lines_join [OF assms])
qed

text \<open>
  Claim C6, as amended. \<open>readFileInstructions\<close> reverses the rows, so parsing a text
  of well-formed rows and serializing the result gives the same rows in reverse order;
  every single row is reproduced exactly, and parsing and serializing twice gives the
  text back.
\<close>

theorem parse_then_serialize_reverses_rows:
  assumes "\<forall>l\<in>set ls. well_formed_row l"
  shows "stringifyFileInstructionsForFile (readFileInstructions (join [nl] ls)) = join [nl] (rev ls)
    \<and> stringifyFileInstructionsForFile (readFileInstructions
          (stringifyFileInstructionsForFile (readFileInstructions (join [nl] ls)))) = join [nl] ls
    \<and> (\<forall>l\<in>set ls. serializeInstructionToRules (deserializeInstructionFromRules l) = l)"
proof -
  from assms have r: "\<forall>l\<in>set (rev ls). well_formed_row l" by simp
  show ?thesis
    using stringify_read_join [OF assms] stringify_read_join [OF r] assms
    by (simp add: serialize_deserialize_row)
qed

theorem parse_then_serialize_reverses_rows_witness:
  "well_formed_row ''0000000157sub'' \<and> well_formed_row ''0000000057add''
   \<and> stringifyFileInstructionsForFile
        (readFileInstructions (join [nl] [''0000000157sub'', ''0000000057add'']))
      = join [nl] [''0000000057add'', ''0000000157sub'']"
proof -
  have a: "well_formed_row ''0000000157sub''" and b: "well_formed_row ''0000000057add''"
    by code_simp+
  then have h: "\<forall>l\<in>set [''0000000157sub'', ''0000000057add'']. well_formed_row l" by simp
  from parse_then_serialize_reverses_rows [OF h] a b show ?thesis by simp
qed

text \<open>The claim as stated, that the text itself comes back, fails for two rows, and
  for the rule table generated from \<open>cond_table\<close>.\<close>

theorem round_trip_counterexample:
  "well_formed_row ''0000000157sub'' \<and> well_formed_row ''0000000057add''
   \<and> stringifyFileInstructionsForFile
        (readFileInstructions (join [nl] [''0000000157sub'', ''0000000057add'']))
      = join [nl] [''0000000057add'', ''0000000157sub'']
   \<and> stringifyFileInstructionsForFile
        (readFileInstructions (join [nl] [''0000000157sub'', ''0000000057add'']))
      \<noteq> join [nl] [''0000000157sub'', ''0000000057add'']
   \<and> list_all well_formed_row (split_nl (instructionRulesContent_of cond_table))
   \<and> stringifyFileInstructionsForFile
        (readFileInstructions (instructionRulesContent_of cond_table))
      \<noteq> instructionRulesContent_of cond_table"
  by code_simp

text \<open>
  Claim C9, as amended. The parser has no check of the length of a line. Every line of
  the table that is shorter than 10 characters yields a record and no error: its opcode
  bits are the first (at most 8) characters of the line, its mnemonic is empty, its
  \<open>nameEndIndex\<close> is NaN, and so is its \<open>nameStartIndex\<close> when the line has fewer
  than 9 characters.
\<close>

theorem short_line_yields_record:
  assumes "l \<in> set (table_lines input)" and "length l < 10"
  shows "deserializeInstructionFromRules l \<in> set (readFileInstructions input)
    \<and> opcodeBits (deserializeInstructionFromRules l) = take 8 l
    \<and> name (deserializeInstructionFromRules l) = []
    \<and> nameEndIndex (deserializeInstructionFromRules l) = NaN
    \<and> (length l < 9 \<longrightarrow> nameStartIndex (deserializeInstructionFromRules l) = NaN)"
proof -
  from assms(1) have "deserializeInstructionFromRules l \<in> set (readFileInstructions input)"
    by (simp add: readFileInstructions_def)
  moreover have "parseInt [] 10 = NaN" by (simp add: parseInt_def)
  ultimately show ?thesis using assms(2)
    by (simp add: deserializeInstructionFromRules_def slice_def slice_from_def)
qed

theorem short_line_yields_record_witness:
  "''0000'' \<in> set (table_lines ''0000'') \<and> length ''0000'' < 10
   \<and> deserializeInstructionFromRules ''0000'' \<in> set (readFileInstructions ''0000'')
   \<and> nameEndIndex (deserializeInstructionFromRules ''0000'') = NaN
   \<and> nameStartIndex (deserializeInstructionFromRules ''0000'') = NaN"
proof -
  have h1: "''0000'' \<in> set (table_lines ''0000'')" by code_simp
  have h2: "length ''0000'' < 10" by simp
  from short_line_yields_record [OF h1 h2] h1 show ?thesis by simp
qed

text \<open>The claim as stated fails: the four-character line \<open>0000\<close> is parsed into a
  record with two NaN indices and an empty mnemonic, and nothing is raised.\<close>

theorem short_line_counterexample:
  "table_lines ''0000'' = [''0000''] \<and> length ''0000'' < 10
   \<and> readFileInstructions ''0000'' =
      [\<lparr>opcodeBits = ''0000'', nameStartIndex = NaN, nameEndIndex = NaN, name = []\<rparr>]"
  by code_simp

section \<open>The filter of already expanded rows\<close>

text \<open>
  Claim C10. The filter looks at the mnemonic only. In the table \<open>muli1_table\<close> the
  row \<open>0000100057muli1\<close> is a well-formed row without wildcard, a base instruction whose
  authored mnemonic ends in i1; it is parsed, dropped by the filter before the expansion,
  and neither the rule rows nor the assembly lines mention it.
\<close>

theorem authored_tag_suffix_row_dropped:
  "well_formed_row ''0000100057muli1''
   \<and> table_lines muli1_table = [''0000100057muli1'', ''0000000057add'']
   \<and> \<not> str_includes (opcodeBits (deserializeInstructionFromRules ''0000100057muli1'')) CHR ''2''
   \<and> deserializeInstructionFromRules ''0000100057muli1'' \<in> set (readFileInstructions muli1_table)
   \<and> filter (\<lambda>i. \<not> already_immediate (name i)) (readFileInstructions muli1_table) =
       [\<lparr>opcodeBits = ''00000000'', nameStartIndex = Number 5, nameEndIndex = Number 7,
         name = ''add''\<rparr>]
   \<and> map name (instr_of muli1_table) = [''add'', ''addi1'', ''addi2'', ''addi12'']
   \<and> instructionRulesContent_of muli1_table =
       join [nl] [''0000000057add'', ''1000000057addi1'', ''0100000057addi2'',
                  ''1100000057addi12'']
   \<and> asmContent_of muli1_table =
       Inr (join [nl] [''add 0'', ''addi1 128'', ''addi2 64'', ''addi12 192''] @ asm_constants)"
  by code_simp

section \<open>Characters\<close>

lemma of_char_lower_char:
  "(of_char (lower_char c) :: nat) =
     (if (65 \<le> (of_char c :: nat) \<and> (of_char c :: nat) \<le> 90)
         \<or> (192 \<le> (of_char c :: nat) \<and> (of_char c :: nat) \<le> 222 \<and> (of_char c :: nat) \<noteq> 215)
      then of_char c + 32 else of_char c)"
  by (simp add: lower_char_def Let_def)

lemma char_eq_code: "(c = d) = ((of_char c :: nat) = of_char d)"
  by simp

lemma is_ws_of_char:
  "is_ws c = ((of_char c :: nat) \<in> {9, 10, 11, 12, 13, 32, 160})"
  by (simp add: is_ws_def char_eq_code [of c] del: of_char_eq_iff)

lemma nl_of_char: "(c = nl) = ((of_char c :: nat) = 10)"
  by (simp add: nl_def char_eq_code [of c] del: of_char_eq_iff)

lemma lower_char_nl: "(lower_char c = nl) = (c = nl)"
  by (auto simp add: nl_of_char of_char_lower_char)

lemma lower_char_ws: "is_ws (lower_char c) = is_ws c"
  by (auto simp add: is_ws_of_char of_char_lower_char)

lemma lower_char_idem: "lower_char (lower_char c) = lower_char c"
proof -
  have "(of_char (lower_char (lower_char c)) :: nat) = of_char (lower_char c)"
    by (auto simp add: of_char_lower_char)
  then show ?thesis by (simp only: of_char_eq_iff)
qed

section \<open>Line breaks never enter a row\<close>

lemma split_nl_nonempty: "split_nl s \<noteq> []"
  by (induction s) (auto split: list.splits)

lemma split_nl_lines_nl_free: "l \<in> set (split_nl s) \<Longrightarrow> nl \<notin> set l"
proof (induction s arbitrary: l)
  case Nil
  then show ?case by simp
next
  case (Cons c cs)
  show ?case
  proof (cases "c = nl")
    case True
    with Cons show ?thesis by auto
  next
    case False
    obtain k ks where ks: "split_nl cs = k # ks"
      using split_nl_nonempty [of cs] by (cases "split_nl cs") auto
    with False Cons.prems have "l = c # k \<or> l \<in> set ks" by simp
    with False ks Cons.IH [of k] Cons.IH [of l] show ?thesis by auto
  qed
qed

lemma set_trim: "set (trim l) \<subseteq> set l"
proof -
  have "set (dropWhile is_ws (rev (dropWhile is_ws l))) \<subseteq> set (rev (dropWhile is_ws l))"
    by (rule set_dropWhileD [THEN subsetI]) 
  also have "\<dots> \<subseteq> set l" using set_dropWhileD [of _ is_ws l] by auto
  finally show ?thesis by (simp add: trim_def)
qed

lemma table_lines_nl_free: "l \<in> set (table_lines input) \<Longrightarrow> nl \<notin> set l"
  using split_nl_lines_nl_free set_trim by (fastforce simp add: table_lines_def)

lemma nat_to_string_nl_free: "nl \<notin> set (nat_to_string n)"
proof (induction n rule: nat_to_string.induct)
  case (1 n)
  have d: "char_of (48 + k) \<noteq> nl" if "k < 10" for k :: nat
    using that by (simp add: nl_of_char)
  show ?case
  proof (cases "n < 10")
    case True
    then show ?thesis using d [of n] by (simp add: nat_to_string.simps [of n])
  next
    case False
    with 1 d [of "n mod 10"] show ?thesis by (simp add: nat_to_string.simps [of n])
  qed
qed

lemma number_to_string_nl_free: "nl \<notin> set (number_to_string x)"
proof (cases x)
  case NaN
  then show ?thesis by (simp add: nl_def)
next
  case (Number n)
  have "CHR ''-'' \<noteq> nl" by (simp add: nl_def)
  with Number show ?thesis by (simp add: nat_to_string_nl_free)
qed

lemma serialize_nl_free:
  "nl \<notin> set (opcodeBits r) \<Longrightarrow> nl \<notin> set (name r) \<Longrightarrow> nl \<notin> set (serializeInstructionToRules r)"
  by (simp add: serializeInstructionToRules_def number_to_string_nl_free)

lemma deserialize_nl_free:
  assumes "nl \<notin> set l"
  shows "nl \<notin> set (opcodeBits (deserializeInstructionFromRules l))"
    and "nl \<notin> set (name (deserializeInstructionFromRules l))"
  using assms in_set_takeD [of nl 8 l] in_set_dropD [of nl 10 l]
  by (auto simp add: deserializeInstructionFromRules_def slice_def slice_from_def)

lemma lowercase_name_nl_free:
  "nl \<notin> set (name r) \<Longrightarrow> nl \<notin> set (name (lowercase_name r))"
  "opcodeBits (lowercase_name r) = opcodeBits r"
  by (auto simp add: lowercase_name_def toLowerCase_def
        dest: sym [THEN lower_char_nl [THEN iffD1]])

lemma clone_nl_free:
  assumes "nl \<notin> set (opcodeBits r)" and "nl \<notin> set (name r)"
  shows "nl \<notin> set (opcodeBits (immediateModeClone r m))"
    and "nl \<notin> set (name (immediateModeClone r m))"
proof -
  from assms(1) have "nl \<notin> set (drop 2 (opcodeBits r))" using in_set_dropD by fastforce
  then show "nl \<notin> set (opcodeBits (immediateModeClone r m))"
    by (cases m) (simp_all add: immediateModeClone_opcodeBits nl_def)
  from assms(2) show "nl \<notin> set (name (immediateModeClone r m))"
    by (cases m) (simp_all add: immediateModeClone_other nl_def)
qed

lemma expand_nl_free:
  assumes "nl \<notin> set (opcodeBits r)" and "nl \<notin> set (name r)"
    and "x \<in> set (addImmediateModeClones r)"
  shows "nl \<notin> set (opcodeBits x) \<and> nl \<notin> set (name x)"
  using assms clone_nl_free [OF assms(1,2)]
  by (auto simp add: addImmediateModeClones_def split: if_splits)

lemma instr_of_nl_free:
  assumes "x \<in> set (instr_of input)"
  shows "nl \<notin> set (serializeInstructionToRules x)"
proof -
  from assms obtain l where l: "l \<in> set (table_lines input)"
    and x: "x \<in> set (addImmediateModeClones (lowercase_name (deserializeInstructionFromRules l)))"
    by (auto simp add: instr_of_def base_records_def readFileInstructions_def)
  let ?r = "lowercase_name (deserializeInstructionFromRules l)"
  from l have "nl \<notin> set l" by (rule table_lines_nl_free)
  then have "nl \<notin> set (opcodeBits ?r)" "nl \<notin> set (name ?r)"
    by (simp_all add: lowercase_name_nl_free deserialize_nl_free)
  with x have "nl \<notin> set (opcodeBits x) \<and> nl \<notin> set (name x)" by (rule expand_nl_free [rotated 2])
  then show ?thesis by (simp add: serialize_nl_free)
qed

lemma rules_content_lines:
  assumes "instr_of input \<noteq> []"
  shows "split_nl (instructionRulesContent_of input) =
         map serializeInstructionToRules (instr_of input)"
  unfolding instructionRulesContent_of_def stringifyFileInstructionsForFile_def
  using assms by (intro split_nl_join) (auto simp add: instr_of_nl_free)

section \<open>Wildcard rows\<close>

lemma deserialize_fields:
  "opcodeBits (deserializeInstructionFromRules l) = take 8 l"
  "name (deserializeInstructionFromRules l) = drop 10 l"
  by (simp_all add: deserializeInstructionFromRules_def slice_def slice_from_def)

lemma lowercase_name_wildcard:
  "str_includes (opcodeBits r) CHR ''2'' \<Longrightarrow> lowercase_name r = r"
  by (simp add: lowercase_name_def)

lemma instr_of_member:
  assumes "r \<in> set (readFileInstructions input)" and "\<not> already_immediate (name r)"
    and "x \<in> set (addImmediateModeClones (lowercase_name r))"
  shows "x \<in> set (instr_of input)"
  using assms by (auto simp add: instr_of_def base_records_def)

lemma asmContent_of_lines:
  "asmContent_of input =
     Inr (join [nl] (map (\<lambda>i. name i @ '' '' @ number_to_string (parseInt (opcodeBits i) 2))
                      (asm_records (instr_of input))) @ asm_constants)"
proof -
  let ?rs = "asm_records (instr_of input)"
  have a: "\<forall>x\<in>set ?rs. \<not> isl (serializeInstructionToAsm x)"
    by (simp add: asm_records_def serializeInstructionToAsm_def)
  have "map (\<lambda>x. projr (serializeInstructionToAsm x)) ?rs =
      map (\<lambda>i. name i @ '' '' @ number_to_string (parseInt (opcodeBits i) 2)) ?rs"
    by (rule map_cong) (simp_all add: asm_records_def serializeInstructionToAsm_def)
  with map_throwing_total [OF a] show ?thesis by (simp add: asmContent_of_def)
qed

text \<open>
  Claim C4, as amended. A table row whose opcode bits contain the wildcard 2 is never
  lower-cased, is returned alone by \<open>addImmediateModeClones\<close>, and is not among the
  records of the assembly text, whose lines are exactly those of the records without
  wildcard. When the row is well-formed and its mnemonic does not end in i1, i2 or i12,
  its record is in the expanded sequence and the row is, unchanged, a line of the rule
  table.
\<close>

theorem wildcard_row_passes_through:
  assumes l: "l \<in> set (table_lines input)" and w: "str_includes (take 8 l) CHR ''2''"
  shows "lowercase_name (deserializeInstructionFromRules l) = deserializeInstructionFromRules l
    \<and> addImmediateModeClones (deserializeInstructionFromRules l) =
        [deserializeInstructionFromRules l]
    \<and> deserializeInstructionFromRules l \<notin> set (asm_records (instr_of input))
    \<and> asmContent_of input =
        Inr (join [nl] (map (\<lambda>i. name i @ '' '' @ number_to_string (parseInt (opcodeBits i) 2))
                         (asm_records (instr_of input))) @ asm_constants)
    \<and> (well_formed_row l \<and> \<not> already_immediate (drop 10 l) \<longrightarrow>
         deserializeInstructionFromRules l \<in> set (instr_of input)
         \<and> l \<in> set (split_nl (instructionRulesContent_of input)))"
proof -
  let ?r = "deserializeInstructionFromRules l"
  from w have wr: "str_includes (opcodeBits ?r) CHR ''2''" by (simp add: deserialize_fields)
  then have a: "lowercase_name ?r = ?r" by (rule lowercase_name_wildcard)
  from wr have b: "addImmediateModeClones ?r = [?r]" by (rule addImmediateModeClones_wildcard)
  from wr have d: "?r \<notin> set (asm_records (instr_of input))" by (simp add: asm_records_def)
  have c: "?r \<in> set (instr_of input) \<and> l \<in> set (split_nl (instructionRulesContent_of input))"
    if wf: "well_formed_row l" and nf: "\<not> already_immediate (drop 10 l)"
  proof -
    from l have "?r \<in> set (readFileInstructions input)" by (simp add: readFileInstructions_def)
    moreover from nf have "\<not> already_immediate (name ?r)" by (simp add: deserialize_fields)
    moreover have "?r \<in> set (addImmediateModeClones (lowercase_name ?r))" by (simp add: a b)
    ultimately have m: "?r \<in> set (instr_of input)" by (rule instr_of_member)
    then have "instr_of input \<noteq> []" by auto
    then have "split_nl (instructionRulesContent_of input) =
        map serializeInstructionToRules (instr_of input)" by (rule rules_content_lines)
    moreover from m have "serializeInstructionToRules ?r \<in>
        set (map serializeInstructionToRules (instr_of input))" by simp
    ultimately show ?thesis using m serialize_deserialize_row [OF wf] by simp
  qed
  from a b d c asmContent_of_lines [of input] show ?thesis by blast
qed

theorem wildcard_row_passes_through_witness:
  "''2212222222COND'' \<in> set (table_lines cond_table)
   \<and> str_includes (take 8 ''2212222222COND'') CHR ''2''
   \<and> well_formed_row ''2212222222COND'' \<and> \<not> already_immediate (drop 10 ''2212222222COND'')
   \<and> ''2212222222COND'' \<in> set (split_nl (instructionRulesContent_of cond_table))
   \<and> deserializeInstructionFromRules ''2212222222COND'' \<notin> set (asm_records (instr_of cond_table))"
proof -
  have h1: "''2212222222COND'' \<in> set (table_lines cond_table)" by code_simp
  have h2: "str_includes (take 8 ''2212222222COND'') CHR ''2''" by code_simp
  have h3: "well_formed_row ''2212222222COND''" by code_simp
  have h4: "\<not> already_immediate (drop 10 ''2212222222COND'')" by code_simp
  from wildcard_row_passes_through [OF h1 h2] h1 h2 h3 h4 show ?thesis by blast
qed

text \<open>The claim as stated fails for a wildcard row whose mnemonic ends in a tag: the
  filter of already expanded rows drops it, and the rule table does not hold it.\<close>

theorem wildcard_row_counterexample:
  "''2222222200MASKi1'' \<in> set (table_lines mask_table)
   \<and> well_formed_row ''2222222200MASKi1''
   \<and> str_includes (opcodeBits (deserializeInstructionFromRules ''2222222200MASKi1'')) CHR ''2''
   \<and> ''2222222200MASKi1'' \<notin> set (split_nl (instructionRulesContent_of mask_table))
   \<and> instructionRulesContent_of mask_table =
       join [nl] [''0000000057add'', ''1000000057addi1'', ''0100000057addi2'',
                  ''1100000057addi12'']"
  by code_simp

section \<open>Well-formed records\<close>

lemma digit_char:
  assumes "d < 10"
  shows "is_digit 10 (char_of (48 + d))" and "digit_val 10 (char_of (48 + d)) = Some d"
  using assms by (simp_all add: is_digit_def digit_val_def Let_def)

lemma digit_not_ws: "is_digit 10 c \<Longrightarrow> \<not> is_ws c \<and> c \<noteq> nl"
  by (auto simp add: is_digit_def digit_val_def Let_def is_ws_of_char nl_of_char split: if_splits)

lemma bit_not_nl: "c \<in> {CHR ''0'', CHR ''1'', CHR ''2''} \<Longrightarrow> c \<noteq> nl"
  by (auto simp add: nl_def)

lemma parseInt_digit_char:
  assumes "d < 10"
  shows "parseInt [char_of (48 + d)] 10 = Number (int d)"
proof -
  define c :: char where "c = char_of (48 + d)"
  from assms have oc: "(of_char c :: nat) = 48 + d" by (simp add: c_def)
  have dv: "digit_val 10 c = Some d" using assms by (simp add: digit_val_def Let_def oc)
  then have dg: "is_digit 10 c" by (simp add: is_digit_def)
  have ws: "\<not> is_ws c" using assms by (simp add: is_ws_of_char oc)
  have m: "c \<noteq> CHR ''-''" and p: "c \<noteq> CHR ''+''"
    by (simp_all add: char_eq_code [of c] oc del: of_char_eq_iff)
  from dv dg ws m p have "parseInt [c] 10 = Number (int d)"
    by (simp add: parseInt_def Let_def digits_value_def)
  then show ?thesis by (simp only: c_def)
qed

lemma is_digit_number_string:
  assumes "is_digit_number x"
  shows "\<exists>c. number_to_string x = [c] \<and> is_digit 10 c \<and> parseInt [c] 10 = x"
proof -
  from assms obtain n where x: "x = Number n" and n: "0 \<le> n" "n < 10"
    by (cases x) (simp_all add: is_digit_number_def)
  define d where "d = nat n"
  with n have d: "d < 10" and nd: "n = int d" by simp_all
  have "number_to_string x = [char_of (48 + d)]" using d by (simp add: x nd nat_to_string_digit)
  moreover have "is_digit 10 (char_of (48 + d))" using d by (rule digit_char)
  moreover have "parseInt [char_of (48 + d)] 10 = x"
    using parseInt_digit_char [OF d] by (simp only: x nd)
  ultimately show ?thesis by blast
qed

lemma deserialize_well_formed:
  assumes "well_formed_row l"
  shows "well_formed_record (deserializeInstructionFromRules l)"
proof -
  from assms have len: "10 \<le> length l" and d8: "is_digit 10 (l ! 8)" and d9: "is_digit 10 (l ! 9)"
    and bits: "set (take 8 l) \<subseteq> {CHR ''0'', CHR ''1'', CHR ''2''}"
    and nonl: "nl \<notin> set l" and lst: "\<not> is_ws (last l)"
    by (simp_all add: well_formed_row_def)
  from len have d8': "drop 8 l = l ! 8 # drop 9 l"
    using Cons_nth_drop_Suc [of 8 l] by simp
  from len have d9': "drop 9 l = l ! 9 # drop 10 l"
    using Cons_nth_drop_Suc [of 9 l] by simp
  have s8: "slice l 8 9 = [l ! 8]" and s9: "slice l 9 10 = [l ! 9]"
    by (simp_all add: slice_def d8' d9')
  from parseInt_digit [OF d8] have a: "is_digit_number (parseInt (slice l 8 9) 10)"
    by (auto simp add: s8 is_digit_number_def)
  from parseInt_digit [OF d9] have b: "is_digit_number (parseInt (slice l 9 10) 10)"
    by (auto simp add: s9 is_digit_number_def)
  from nonl have n: "nl \<notin> set (drop 10 l)" using in_set_dropD by fastforce
  from lst have e: "drop 10 l = [] \<or> \<not> is_ws (last (drop 10 l))" by auto
  from len bits a b n e show ?thesis
    by (simp add: well_formed_record_def deserializeInstructionFromRules_def slice_def [of l 0 8]
        slice_from_def)
qed

lemma serialize_well_formed:
  assumes "well_formed_record r"
  shows "well_formed_row (serializeInstructionToRules r)"
    and "deserializeInstructionFromRules (serializeInstructionToRules r) = r"
proof -
  from assms have len: "length (opcodeBits r) = 8"
    and bits: "set (opcodeBits r) \<subseteq> {CHR ''0'', CHR ''1'', CHR ''2''}"
    and nonl: "nl \<notin> set (name r)" and lst: "name r = [] \<or> \<not> is_ws (last (name r))"
    by (simp_all add: well_formed_record_def)
  from assms is_digit_number_string [of "nameStartIndex r"] obtain a where
    a: "number_to_string (nameStartIndex r) = [a]" "is_digit 10 a" "parseInt [a] 10 = nameStartIndex r"
    by (auto simp add: well_formed_record_def)
  from assms is_digit_number_string [of "nameEndIndex r"] obtain b where
    b: "number_to_string (nameEndIndex r) = [b]" "is_digit 10 b" "parseInt [b] 10 = nameEndIndex r"
    by (auto simp add: well_formed_record_def)
  have s: "serializeInstructionToRules r = opcodeBits r @ a # b # name r"
    by (simp add: serializeInstructionToRules_def a b)
  from bits have "nl \<notin> set (opcodeBits r)" using bit_not_nl by blast
  with nonl a(2) b(2) have n: "nl \<notin> set (opcodeBits r @ a # b # name r)"
    using digit_not_ws by auto
  from lst b(2) have l: "\<not> is_ws (last (opcodeBits r @ a # b # name r))"
    using digit_not_ws by auto
  from len have i8: "(opcodeBits r @ a # b # name r) ! 8 = a"
    and i9: "(opcodeBits r @ a # b # name r) ! 9 = b"
    by (simp_all add: nth_append)
  from len bits a(2) b(2) n l i8 i9 show "well_formed_row (serializeInstructionToRules r)"
    by (simp add: well_formed_row_def s)
  from len have "deserializeInstructionFromRules (opcodeBits r @ a # b # name r) =
      \<lparr>opcodeBits = opcodeBits r, nameStartIndex = parseInt [a] 10,
       nameEndIndex = parseInt [b] 10, name = name r\<rparr>"
    by (simp add: deserializeInstructionFromRules_def slice_def slice_from_def)
  then show "deserializeInstructionFromRules (serializeInstructionToRules r) = r"
    by (simp add: s a b)
qed

lemma lowercase_well_formed:
  assumes "well_formed_record r"
  shows "well_formed_record (lowercase_name r)"
proof (cases "str_includes (opcodeBits r) CHR ''2''")
  case True
  with assms show ?thesis by (simp add: lowercase_name_wildcard)
next
  case False
  from assms have nonl: "nl \<notin> set (name r)" and lst: "name r = [] \<or> \<not> is_ws (last (name r))"
    by (simp_all add: well_formed_record_def)
  from nonl have a: "nl \<notin> set (toLowerCase (name r))"
    by (auto simp add: toLowerCase_def dest: sym [THEN lower_char_nl [THEN iffD1]])
  from lst have b: "toLowerCase (name r) = [] \<or> \<not> is_ws (last (toLowerCase (name r)))"
    by (auto simp add: toLowerCase_def last_map lower_char_ws)
  from assms a b show ?thesis
    by (simp add: well_formed_record_def lowercase_name_def)
qed

lemma clone_well_formed:
  assumes "well_formed_record r"
  shows "well_formed_record (immediateModeClone r m)"
proof -
  from assms have len: "length (opcodeBits r) = 8"
    and bits: "set (opcodeBits r) \<subseteq> {CHR ''0'', CHR ''1'', CHR ''2''}"
    and nonl: "nl \<notin> set (name r)"
    and idx: "is_digit_number (nameStartIndex r)" "is_digit_number (nameEndIndex r)"
    by (simp_all add: well_formed_record_def)
  from bits have d: "set (drop 2 (opcodeBits r)) \<subseteq> {CHR ''0'', CHR ''1'', CHR ''2''}"
    using set_drop_subset [of 2 "opcodeBits r"] by blast
  have t: "nl \<notin> set (mode_string m)" "\<not> is_ws (last (mode_string m))" "mode_string m \<noteq> []"
    by (cases m; simp add: nl_def is_ws_def)+
  from len d have "length (opcodeBits (immediateModeClone r m)) = 8"
    "set (opcodeBits (immediateModeClone r m)) \<subseteq> {CHR ''0'', CHR ''1'', CHR ''2''}"
    by (cases m; simp add: immediateModeClone_opcodeBits)+
  with nonl idx t show ?thesis
    by (simp add: well_formed_record_def immediateModeClone_other)
qed

lemma expand_well_formed:
  "well_formed_record r \<Longrightarrow> x \<in> set (addImmediateModeClones r) \<Longrightarrow> well_formed_record x"
  by (auto simp add: addImmediateModeClones_def clone_well_formed split: if_splits)

lemma read_stringify:
  assumes "\<forall>r\<in>set rs. well_formed_record r"
  shows "readFileInstructions (stringifyFileInstructionsForFile rs) = rev rs"
proof -
  from assms have "\<forall>l\<in>set (map serializeInstructionToRules rs). well_formed_row l"
    by (simp add: serialize_well_formed)
  then have "table_lines (join [nl] (map serializeInstructionToRules rs)) =
      map serializeInstructionToRules rs" by (rule table_lines_join)
  moreover from assms have
    "map deserializeInstructionFromRules (map serializeInstructionToRules rs) = rs"
    by (simp add: map_idI serialize_well_formed)
  ultimately show ?thesis
    by (simp add: readFileInstructions_def stringifyFileInstructionsForFile_def)
qed

lemma already_immediate_tag: "already_immediate (n @ mode_string m)"
  by (cases m) (simp_all add: already_immediate_def ends_with_def)

lemma filter_expand:
  assumes "\<not> already_immediate (name b)"
  shows "filter (\<lambda>i. \<not> already_immediate (name i)) (addImmediateModeClones b) = [b]"
proof -
  have "filter (\<lambda>i. \<not> already_immediate (name i)) (map (immediateModeClone b) ms) = []" for ms
    by (induction ms) (simp_all add: immediateModeClone_other already_immediate_tag)
  with assms show ?thesis
    by (cases "str_includes (opcodeBits b) CHR ''2''")
       (simp_all add: addImmediateModeClones_wildcard addImmediateModeClones_plain)
qed

lemma filter_concat_expand:
  assumes "\<forall>b\<in>set bs. \<not> already_immediate (name b)"
  shows "filter (\<lambda>i. \<not> already_immediate (name i)) (concat (map addImmediateModeClones bs)) = bs"
  using assms by (induction bs) (simp_all add: filter_expand)

lemma lowercase_name_idem: "lowercase_name (lowercase_name r) = lowercase_name r"
proof -
  have "toLowerCase (toLowerCase s) = toLowerCase s" for s
    by (simp add: toLowerCase_def lower_char_idem)
  then show ?thesis by (simp add: lowercase_name_def)
qed

section \<open>Running the generator on its own rule table\<close>

lemma base_records_properties:
  assumes wf: "\<forall>l\<in>set (table_lines input). well_formed_row l"
    and low: "\<forall>l\<in>set (table_lines input). \<not> str_includes (take 8 l) CHR ''2'' \<longrightarrow>
        already_immediate (toLowerCase (drop 10 l)) \<longrightarrow> already_immediate (drop 10 l)"
    and b: "b \<in> set (base_records input)"
  shows "well_formed_record b" and "\<not> already_immediate (name b)" and "lowercase_name b = b"
proof -
  from b obtain l where l: "l \<in> set (table_lines input)"
    and nf: "\<not> already_immediate (drop 10 l)"
    and bl: "b = lowercase_name (deserializeInstructionFromRules l)"
    by (auto simp add: base_records_def readFileInstructions_def deserialize_fields)
  from wf l have "well_formed_record (deserializeInstructionFromRules l)"
    by (simp add: deserialize_well_formed)
  then show "well_formed_record b" unfolding bl by (rule lowercase_well_formed)
  show "lowercase_name b = b" unfolding bl by (rule lowercase_name_idem)
  show "\<not> already_immediate (name b)"
  proof (cases "str_includes (take 8 l) CHR ''2''")
    case True
    with nf show ?thesis by (simp add: bl lowercase_name_def deserialize_fields)
  next
    case False
    with low l nf have "\<not> already_immediate (toLowerCase (drop 10 l))" by blast
    with False show ?thesis by (simp add: bl lowercase_name_def deserialize_fields)
  qed
qed

text \<open>
  Claim C5, as amended. For a table of well-formed rows in which lower-casing creates no
  tag ending (no mnemonic of a row without wildcard ends in I1, I2 or I12 with a capital
  I), running the generator again on its own rule table expands exactly the base records
  of the first run, in reverse order, since every derived record is filtered out before
  the expansion; the two runs yield the same set of records.
\<close>

theorem expansion_idempotent:
  assumes wf: "\<forall>l\<in>set (table_lines input). well_formed_row l"
    and low: "\<forall>l\<in>set (table_lines input). \<not> str_includes (take 8 l) CHR ''2'' \<longrightarrow>
        already_immediate (toLowerCase (drop 10 l)) \<longrightarrow> already_immediate (drop 10 l)"
  shows "base_records (instructionRulesContent_of input) = rev (base_records input)
    \<and> set (instr_of (instructionRulesContent_of input)) = set (instr_of input)"
proof -
  let ?B = "base_records input"
  note p = base_records_properties [OF wf low]
  have "\<forall>r\<in>set (instr_of input). well_formed_record r"
    using p(1) expand_well_formed by (auto simp add: instr_of_def)
  then have "readFileInstructions (instructionRulesContent_of input) = rev (instr_of input)"
    unfolding instructionRulesContent_of_def by (rule read_stringify)
  moreover have "filter (\<lambda>i. \<not> already_immediate (name i)) (instr_of input) = ?B"
    unfolding instr_of_def by (rule filter_concat_expand) (simp add: p(2))
  moreover have "map lowercase_name ?B = ?B" by (rule map_idI) (rule p(3))
  ultimately have r: "base_records (instructionRulesContent_of input) = rev ?B"
    by (simp add: base_records_def [of "instructionRulesContent_of input"] rev_filter [symmetric]
        rev_map [symmetric])
  then have "set (instr_of (instructionRulesContent_of input)) = set (instr_of input)"
    by (simp add: instr_of_def)
  with r show ?thesis by simp
qed

theorem expansion_idempotent_witness:
  "list_all well_formed_row (table_lines instructions)
   \<and> base_records instructionRulesContent = rev (base_records instructions)
   \<and> set (instr_of instructionRulesContent) = set instr"
proof -
  have a: "list_all well_formed_row (table_lines instructions)" by code_simp
  then have h1: "\<forall>l\<in>set (table_lines instructions). well_formed_row l"
    by (simp add: list_all_iff)
  have "list_all (\<lambda>l. \<not> str_includes (take 8 l) CHR ''2'' \<longrightarrow>
        already_immediate (toLowerCase (drop 10 l)) \<longrightarrow> already_immediate (drop 10 l))
      (table_lines instructions)" by code_simp
  then have h2: "\<forall>l\<in>set (table_lines instructions). \<not> str_includes (take 8 l) CHR ''2'' \<longrightarrow>
        already_immediate (toLowerCase (drop 10 l)) \<longrightarrow> already_immediate (drop 10 l)"
    by (simp add: list_all_iff)
  from expansion_idempotent [OF h1 h2] a show ?thesis
    by (simp add: instr_def instructionRulesContent_def)
qed

text \<open>The claim as stated fails when the filter, which is case sensitive and runs before
  the lower-casing, lets a mnemonic in capitals through: \<open>ADDI1\<close> is expanded in the
  first run, and in the second run \<open>addi1\<close> and its three variants are all filtered
  out.\<close>

theorem expansion_idempotent_counterexample:
  "well_formed_row ''0000000057ADDI1''
   \<and> map name (instr_of capital_tag_table) = [''addi1'', ''addi1i1'', ''addi1i2'', ''addi1i12'']
   \<and> instructionRulesContent_of capital_tag_table =
       join [nl] [''0000000057addi1'', ''1000000057addi1i1'', ''0100000057addi1i2'',
                  ''1100000057addi1i12'']
   \<and> instr_of (instructionRulesContent_of capital_tag_table) = []
   \<and> set (instr_of (instructionRulesContent_of capital_tag_table))
       \<noteq> set (instr_of capital_tag_table)"
  by code_simp

end
